theory Spec2Isabelle
  imports Complex_Main "HOL-Library.Signed_Division" "HOL-Library.Multiset"
begin

section \<open>Data model\<close>

text \<open>
  A point is a pair of 64-bit signed coordinates (\<open>coord_t\<close>). Signed overflow is
  undefined behaviour in C++, so the coordinates are modelled as unbounded integers:
  every statement below is about runs in which no intermediate value leaves the
  64-bit range.
\<close>

type_synonym coord_t = int

record Point2LL =
  X :: coord_t
  Y :: coord_t

type_synonym Polygon = "Point2LL list"

type_synonym Polygons = "Polygon list"

definition Pt :: "coord_t \<Rightarrow> coord_t \<Rightarrow> Point2LL" where
  "Pt x y = \<lparr>X = x, Y = y\<rparr>"

text \<open>
  Modelled from the spec: the point arithmetic of the geometry primitives (addition,
  subtraction, dot product, squared length), whose declarations lie outside the
  sources modelled here.
\<close>

definition point_add :: "Point2LL \<Rightarrow> Point2LL \<Rightarrow> Point2LL" where
  "point_add a b = \<lparr>X = X a + X b, Y = Y a + Y b\<rparr>"

definition point_sub :: "Point2LL \<Rightarrow> Point2LL \<Rightarrow> Point2LL" where
  "point_sub a b = \<lparr>X = X a - X b, Y = Y a - Y b\<rparr>"

definition dot :: "Point2LL \<Rightarrow> Point2LL \<Rightarrow> coord_t" where
  "dot a b = X a * X b + Y a * Y b"

definition vSize2 :: "Point2LL \<Rightarrow> coord_t" where
  "vSize2 a = X a * X a + Y a * Y a"

text \<open>
  Modelled from the spec: \<open>NO_INDEX\<close>, the sentinel index, is the largest value of
  the 64-bit \<open>size_t\<close>; \<open>int64_max\<close> is \<open>std::numeric_limits<int64_t>::max()\<close>.
\<close>

definition NO_INDEX :: nat where
  "NO_INDEX = 2 ^ 64 - 1"

definition int64_max :: int where
  "int64_max = 2 ^ 63 - 1"


section \<open>Move assignment of \<open>Polygons\<close>\<close>

text \<open>
  \<open>Polygons::operator=(Polygons&&)\<close>. Objects live in a store that maps an address to
  the contours held there. Inside the operator, \<open>(*this) = std::move(polygons)\<close>
  assigns an rvalue \<open>Polygons\<close> to a \<open>Polygons\<close>: overload resolution selects this very
  operator again, with the same receiver and the same source. The function may
  therefore not return, and it is defined as a partial function whose value
  \<open>None\<close> stands for a call that never returns.
\<close>

type_synonym addr = nat

type_synonym store = "addr \<Rightarrow> Polygons"

partial_function (option) move_assign :: "store \<Rightarrow> addr \<Rightarrow> addr \<Rightarrow> store option" where
  "move_assign h this polygons =
     (if this \<noteq> polygons
      then Option.bind (move_assign h this polygons) (\<lambda>h'. Some h')
      else Some h)"


section \<open>Offsetting\<close>

datatype ShapeType = Open | Closed | Filled

datatype JoinType = jtSquare | jtRound | jtMiter

datatype EndType = etClosedPolygon | etClosedLine | etOpenButt | etOpenSquare | etOpenRound

text \<open>
  The clipping engine is external. Its two entry points used by \<open>offset\<close> are
  parameters: \<open>unionPolygons\<close> and the offsetter (miter limit, paths, join type, end
  type, distance). Every invocation of the engine is recorded in a log that is
  returned with the result.

  For a filled shape and a distance other than zero the source executes
  \<open>temp = Polygons(getCallable()).unionPolygons()\<close>: the value returned by the union is a
  temporary, so the assignment is the move assignment above, with the local \<open>temp\<close> at
  address 0 of a local store and the temporary at address 1. The result \<open>None\<close> is a
  call that never returns.
\<close>

datatype engine_call =
  CallUnion Polygons
  | CallOffset real Polygons JoinType EndType coord_t

definition offset ::
  "(Polygons \<Rightarrow> Polygons) \<Rightarrow> (real \<Rightarrow> Polygons \<Rightarrow> JoinType \<Rightarrow> EndType \<Rightarrow> coord_t \<Rightarrow> Polygons) \<Rightarrow>
   ShapeType \<Rightarrow> Polygons \<Rightarrow> coord_t \<Rightarrow> JoinType \<Rightarrow> real \<Rightarrow>
   (Polygons \<times> engine_call list) option" where
  "offset unionPolygons clipperOffset shape_type paths distance joinType miter_limit =
     (if distance = 0 then Some (paths, [])
      else if shape_type = Filled then
        Option.bind
          (move_assign (\<lambda>a. if a = 0 then [] else unionPolygons paths) 0 1)
          (\<lambda>h'. let actual_polygons = h' 0;
                    end_type = etClosedPolygon
                in Some (clipperOffset miter_limit actual_polygons joinType end_type distance,
                         [CallUnion paths,
                          CallOffset miter_limit actual_polygons joinType end_type distance]))
      else
        (let end_type =
               (if shape_type = Closed then etClosedLine
                else if joinType = jtMiter then etOpenSquare
                else etOpenRound)
         in Some (clipperOffset miter_limit paths joinType end_type distance,
                  [CallOffset miter_limit paths joinType end_type distance])))"


section \<open>Containment: \<open>findInside\<close>\<close>

text \<open>
  \<open>LinearAlg2D::pointLiesOnTheRightOfLine\<close> is declared outside the sources modelled here; it is
  the parameter \<open>side\<close>, whose value the source keeps in its local \<open>comp\<close> (1: the
  edge is crossed to the right of the point, 0: the point is on the edge, anything
  else: no crossing).

  The inner loop of \<open>findInside\<close> over the points \<open>p1\<close> of one contour, with the running
  previous point \<open>p0\<close>, the contour's crossing count and its minimal crossing x.
  \<open>None\<close> is the early return on a border hit. Division is C++ division, truncating
  towards zero.
\<close>

fun findInside_edges ::
  "(Point2LL \<Rightarrow> Point2LL \<Rightarrow> Point2LL \<Rightarrow> int) \<Rightarrow> Point2LL \<Rightarrow> bool \<Rightarrow> Point2LL list \<Rightarrow>
   Point2LL \<Rightarrow> int \<Rightarrow> int \<Rightarrow> (int \<times> int) option" where
  "findInside_edges side p border_result [] p0 crossings min_x = Some (crossings, min_x)"
| "findInside_edges side p border_result (p1 # rest) p0 crossings min_x =
     (if side p p0 p1 = 1 then
        let x = (if Y p1 = Y p0 then X p0
                 else X p0 + ((X p1 - X p0) * (Y p - Y p0)) sdiv (Y p1 - Y p0))
        in findInside_edges side p border_result rest p1 (crossings + 1)
             (if x < min_x then x else min_x)
      else if border_result \<and> side p p0 p1 = 0 then None
      else findInside_edges side p border_result rest p1 crossings min_x)"

text \<open>
  The first loop over the contours. \<open>Inl poly_idx\<close> is the early return; otherwise the
  per-contour pairs (crossings, min_x) are collected. For an empty contour the source
  reads \<open>poly.back()\<close>, whose value is then never used; \<open>last []\<close> is likewise unused.
\<close>

fun findInside_scan ::
  "(Point2LL \<Rightarrow> Point2LL \<Rightarrow> Point2LL \<Rightarrow> int) \<Rightarrow> Point2LL \<Rightarrow> bool \<Rightarrow> Polygons \<Rightarrow> nat \<Rightarrow>
   nat + (int \<times> int) list" where
  "findInside_scan side p border_result [] poly_idx = Inr []"
| "findInside_scan side p border_result (poly # rest) poly_idx =
     (case findInside_edges side p border_result poly (last poly) 0 int64_max of
        None \<Rightarrow> Inl poly_idx
      | Some cm \<Rightarrow>
          (case findInside_scan side p border_result rest (poly_idx + 1) of
             Inl i \<Rightarrow> Inl i
           | Inr cms \<Rightarrow> Inr (cm # cms)))"

text \<open>
  The second loop: state (min_x_uneven, ret, n_unevens), over the array index.
\<close>

fun findInside_select :: "(int \<times> int) list \<Rightarrow> nat \<Rightarrow> int \<times> nat \<times> nat \<Rightarrow> int \<times> nat \<times> nat" where
  "findInside_select [] array_idx st = st"
| "findInside_select ((crossings, min_x) # rest) array_idx (min_x_uneven, ret, n_unevens) =
     (if crossings mod 2 = 1 then
        (if min_x < min_x_uneven
         then findInside_select rest (array_idx + 1) (min_x, array_idx, n_unevens + 1)
         else findInside_select rest (array_idx + 1) (min_x_uneven, ret, n_unevens + 1))
      else findInside_select rest (array_idx + 1) (min_x_uneven, ret, n_unevens))"

text \<open>
  \<open>Polygons::findInside\<close>. On the empty set the source executes \<open>return false\<close>, which
  is converted to the index 0.
\<close>

definition findInside ::
  "(Point2LL \<Rightarrow> Point2LL \<Rightarrow> Point2LL \<Rightarrow> int) \<Rightarrow> Polygons \<Rightarrow> Point2LL \<Rightarrow> bool \<Rightarrow> nat" where
  "findInside side polys p border_result =
     (if length polys < 1 then 0
      else
        (case findInside_scan side p border_result polys 0 of
           Inl poly_idx \<Rightarrow> poly_idx
         | Inr cms \<Rightarrow>
             (case findInside_select cms 0 (int64_max, NO_INDEX, 0) of
                (min_x_uneven, ret, n_unevens) \<Rightarrow>
                  if n_unevens mod 2 = 0 then NO_INDEX else ret)))"

text \<open>
  The number of contours with an odd crossing count, as the claim about \<open>findInside\<close>
  counts them.
\<close>

definition odd_count :: "(int \<times> int) list \<Rightarrow> nat" where
  "odd_count cms = length (filter (\<lambda>cm. fst cm mod 2 = 1) cms)"


text \<open>
  Modelled from the spec: the classification of a query point against a directed edge
  by a sign-of-area test (right-of: 1, on: 0, otherwise -1). It instantiates the
  parameter \<open>side\<close> where a statement needs a concrete run.
\<close>

definition pointLiesOnTheRightOfLine :: "Point2LL \<Rightarrow> Point2LL \<Rightarrow> Point2LL \<Rightarrow> int" where
  "pointLiesOnTheRightOfLine p p0 p1 =
     (if max (X p0) (X p1) \<ge> X p then
        (let pd_y = Y p1 - Y p0 in
         if pd_y < 0 then
           (if Y p \<ge> Y p1 \<and> Y p < Y p0 then
              (let dx = (X p1 - X p0) * (Y p1 - Y p) - (X p1 - X p) * pd_y in
               if dx = 0 then 0 else if dx > 0 then 1 else -1)
            else -1)
         else if Y p \<ge> Y p0 then
           (if Y p < Y p1 then
              (let dx = (X p1 - X p0) * (Y p - Y p0) - (X p - X p0) * pd_y in
               if dx = 0 then 0 else if dx > 0 then 1 else -1)
            else if Y p = Y p1 then
              (if X p = X p1 \<or> (pd_y = 0 \<and> min (X p0) (X p1) \<le> X p) then 0 else -1)
            else -1)
         else -1)
      else -1)"


section \<open>Vector length, contour area and contour length\<close>

text \<open>
  Modelled from the spec: \<open>vSize\<close>, the Euclidean length of a vector on the integer
  grid, is the square root of the squared length rounded to the nearest integer.
  Its declaration lies outside the sources modelled here, so the operations that call it
  take it as the parameter \<open>vsize\<close>; this definition instantiates the parameter where a
  statement needs a concrete run. \<open>isqrt\<close> is the integer square root.
\<close>

function isqrt :: "nat \<Rightarrow> nat" where
  "isqrt n =
     (if n = 0 then 0
      else (let r = 2 * isqrt (n div 4) in if (r + 1) * (r + 1) \<le> n then r + 1 else r))"
  by pat_completeness auto
termination
  by (relation "measure (\<lambda>n. n)") auto

declare isqrt.simps [simp del]

definition vSize :: "Point2LL \<Rightarrow> coord_t" where
  "vSize a = int ((isqrt (4 * nat (vSize2 a)) + 1) div 2)"

text \<open>
  Modelled from the spec: the signed area of a contour (positive for an outline,
  negative for a hole; a contour of fewer than three points has none) and its
  circumference, the summed length of its edges including the closing one. The
  per-contour primitives \<open>area()\<close> and \<open>length()\<close> lie outside the sources modelled here;
  the operations that call them take them as parameters.
\<close>

fun area_sum :: "Point2LL \<Rightarrow> Point2LL list \<Rightarrow> int" where
  "area_sum pj [] = 0"
| "area_sum pj (pk # rest) = (X pj + X pk) * (Y pj - Y pk) + area_sum pk rest"

definition polygon_area :: "Polygon \<Rightarrow> real" where
  "polygon_area poly =
     (if length poly < 3 then 0 else - real_of_int (area_sum (last poly) poly) * (1 / 2))"

fun length_sum :: "Point2LL \<Rightarrow> Point2LL list \<Rightarrow> coord_t" where
  "length_sum p0 [] = 0"
| "length_sum p0 (p1 # rest) = vSize (point_sub p1 p0) + length_sum p1 rest"

definition polygon_length :: "Polygon \<Rightarrow> coord_t" where
  "polygon_length poly = (if poly = [] then 0 else length_sum (last poly) poly)"


section \<open>Containment: \<open>inside\<close>\<close>

text \<open>
  \<open>ClipperLib::PointInPolygon\<close> belongs to the external clipping engine; it is the
  parameter \<open>PointInPolygon\<close> (0: outside, 1: inside, -1: on the boundary). The loop of
  \<open>Polygons::inside\<close> carries \<open>poly_count_inside\<close>; the second component of its result
  counts the calls made to the engine. The final test is the C++ remainder, which
  truncates towards zero.
\<close>

fun inside_loop ::
  "(Point2LL \<Rightarrow> Polygon \<Rightarrow> int) \<Rightarrow> Point2LL \<Rightarrow> bool \<Rightarrow> Polygons \<Rightarrow> int \<Rightarrow> nat \<Rightarrow> bool \<times> nat" where
  "inside_loop PointInPolygon p border_result [] poly_count_inside calls =
     (poly_count_inside smod 2 = 1, calls)"
| "inside_loop PointInPolygon p border_result (poly # rest) poly_count_inside calls =
     (let is_inside_this_poly = PointInPolygon p poly in
      if is_inside_this_poly = -1 then (border_result, calls + 1)
      else inside_loop PointInPolygon p border_result rest
             (poly_count_inside + is_inside_this_poly) (calls + 1))"

definition inside ::
  "(Point2LL \<Rightarrow> Polygon \<Rightarrow> int) \<Rightarrow> Polygons \<Rightarrow> Point2LL \<Rightarrow> bool \<Rightarrow> bool \<times> nat" where
  "inside PointInPolygon polys p border_result =
     inside_loop PointInPolygon p border_result polys 0 0"

text \<open>
  Modelled from the spec: a point-in-single-path test with the engine's result
  convention, by the parity of the crossings to the right of the point. It
  instantiates the parameter \<open>PointInPolygon\<close> where a statement needs a concrete run.
\<close>

definition crossing_PointInPolygon :: "Point2LL \<Rightarrow> Polygon \<Rightarrow> int" where
  "crossing_PointInPolygon p poly =
     (case findInside_edges pointLiesOnTheRightOfLine p True poly (last poly) 0 int64_max of
        None \<Rightarrow> -1
      | Some (crossings, min_x) \<Rightarrow> crossings mod 2)"


section \<open>Small-feature filtering: \<open>removeSmallAreaCircumference\<close>\<close>

text \<open>
  The single pass of \<open>Polygons::removeSmallAreaCircumference\<close> over the contours, with
  the state of the source: the output \<open>new_polygon\<close> and the flag
  \<open>outline_is_removed\<close>. The final flag is returned with the output. Areas are
  doubles in the source and reals here.
\<close>

fun removeSmallAreaCircumference_loop ::
  "(Polygon \<Rightarrow> real) \<Rightarrow> (Polygon \<Rightarrow> coord_t) \<Rightarrow> real \<Rightarrow> coord_t \<Rightarrow> bool \<Rightarrow>
   Polygons \<Rightarrow> Polygons \<Rightarrow> bool \<Rightarrow> Polygons \<times> bool" where
  "removeSmallAreaCircumference_loop area_of length_of min_area_size min_circumference_size
     remove_holes [] new_polygon outline_is_removed = (new_polygon, outline_is_removed)"
| "removeSmallAreaCircumference_loop area_of length_of min_area_size min_circumference_size
     remove_holes (poly # rest) new_polygon outline_is_removed =
     (let area = area_of poly;
          circumference = length_of poly;
          is_outline = (area \<ge> 0)
      in
        if is_outline then
          (if circumference \<ge> min_circumference_size \<and> \<bar>area\<bar> \<ge> min_area_size
           then removeSmallAreaCircumference_loop area_of length_of min_area_size
                  min_circumference_size remove_holes rest (new_polygon @ [poly]) False
           else removeSmallAreaCircumference_loop area_of length_of min_area_size
                  min_circumference_size remove_holes rest new_polygon True)
        else if outline_is_removed then
          removeSmallAreaCircumference_loop area_of length_of min_area_size
            min_circumference_size remove_holes rest new_polygon outline_is_removed
        else if \<not> remove_holes
                \<or> (circumference \<ge> min_circumference_size \<and> \<bar>area\<bar> \<ge> min_area_size)
        then removeSmallAreaCircumference_loop area_of length_of min_area_size
               min_circumference_size remove_holes rest (new_polygon @ [poly]) outline_is_removed
        else removeSmallAreaCircumference_loop area_of length_of min_area_size
               min_circumference_size remove_holes rest new_polygon outline_is_removed)"

definition removeSmallAreaCircumference ::
  "(Polygon \<Rightarrow> real) \<Rightarrow> (Polygon \<Rightarrow> coord_t) \<Rightarrow> real \<Rightarrow> coord_t \<Rightarrow> bool \<Rightarrow> Polygons \<Rightarrow> Polygons" where
  "removeSmallAreaCircumference area_of length_of min_area_size min_circumference_size
     remove_holes polys =
     fst (removeSmallAreaCircumference_loop area_of length_of min_area_size
            min_circumference_size remove_holes polys [] False)"

text \<open>
  The thresholds as the claim names them: a contour meets them when its
  circumference and its absolute area both reach the minimum.
\<close>

definition meets_thresholds ::
  "(Polygon \<Rightarrow> real) \<Rightarrow> (Polygon \<Rightarrow> coord_t) \<Rightarrow> real \<Rightarrow> coord_t \<Rightarrow> Polygon \<Rightarrow> bool" where
  "meets_thresholds area_of length_of min_area_size min_circumference_size poly =
     (length_of poly \<ge> min_circumference_size \<and> \<bar>area_of poly\<bar> \<ge> min_area_size)"


section \<open>Manifold repair: \<open>ensureManifold\<close>\<close>

text \<open>
  The first loops of \<open>Polygons::ensureManifold\<close>: every point of every contour, in
  order, with the state (\<open>duplicate_locations\<close>, \<open>poly_locations\<close>). The hash set of the
  source is a set here.
\<close>

fun ensureManifold_points ::
  "Point2LL list \<Rightarrow> Point2LL list \<times> Point2LL set \<Rightarrow> Point2LL list \<times> Point2LL set" where
  "ensureManifold_points [] st = st"
| "ensureManifold_points (p # rest) (duplicate_locations, poly_locations) =
     ensureManifold_points rest
       ((if p \<in> poly_locations then duplicate_locations @ [p] else duplicate_locations),
        insert p poly_locations)"

fun ensureManifold_scan ::
  "Polygons \<Rightarrow> Point2LL list \<times> Point2LL set \<Rightarrow> Point2LL list \<times> Point2LL set" where
  "ensureManifold_scan [] st = st"
| "ensureManifold_scan (poly # rest) st = ensureManifold_scan rest (ensureManifold_points poly st)"

definition duplicate_locations :: "Polygons \<Rightarrow> Point2LL list" where
  "duplicate_locations polys = fst (ensureManifold_scan polys ([], {}))"

text \<open>The diamond pushed for one duplicate location.\<close>

definition removal_dot :: "Point2LL \<Rightarrow> Polygon" where
  "removal_dot p =
     [point_add p (Pt 0 5), point_add p (Pt 5 0), point_add p (Pt 0 (-5)), point_add p (Pt (-5) 0)]"

text \<open>The set \<open>removal_dots\<close> built from the duplicate locations.\<close>

definition removal_dots :: "Polygons \<Rightarrow> Polygons" where
  "removal_dots polys = map removal_dot (duplicate_locations polys)"

text \<open>
  \<open>Polygons::ensureManifold\<close>; the boolean difference of the clipping engine is the
  parameter \<open>difference\<close> (subject set, clip set). In
  \<open>*this = difference(removal_dots)\<close> the value returned by \<open>difference\<close> is a temporary,
  so the assignment is the move assignment above, with the receiver at address 0 of a
  local store and the temporary at address 1. The result \<open>None\<close> is a call that never
  returns; otherwise the result is the set the receiver holds afterwards.
\<close>

definition ensureManifold ::
  "(Polygons \<Rightarrow> Polygons \<Rightarrow> Polygons) \<Rightarrow> Polygons \<Rightarrow> Polygons option" where
  "ensureManifold difference polys =
     (if removal_dots polys \<noteq> []
      then Option.bind
             (move_assign (\<lambda>a. if a = 0 then polys else difference polys (removal_dots polys)) 0 1)
             (\<lambda>h'. Some (h' 0))
      else Some polys)"



section \<open>Degenerate vertices: \<open>removeDegenerateVertsForEveryone\<close>\<close>

text \<open>
  The local predicate \<open>isDegenerate\<close> of the source; the vector length is the
  parameter \<open>vsize\<close>.
\<close>

definition isDegenerate ::
  "(Point2LL \<Rightarrow> coord_t) \<Rightarrow> Point2LL \<Rightarrow> Point2LL \<Rightarrow> Point2LL \<Rightarrow> bool" where
  "isDegenerate vsize last_pt now next_pt =
     (let last_line = point_sub now last_pt;
          next_line = point_sub next_pt now
      in dot last_line next_line = -1 * vsize last_line * vsize next_line)"

text \<open>The inner \<open>while\<close> loop, which pops the back of \<open>result\<close>.\<close>

function removeDegenerateVerts_pop ::
  "(Point2LL \<Rightarrow> coord_t) \<Rightarrow> Polygon \<Rightarrow> Point2LL \<Rightarrow> Polygon" where
  "removeDegenerateVerts_pop vsize result next_pt =
     (if length result > 1
         \<and> isDegenerate vsize (result ! (length result - 2)) (last result) next_pt
      then removeDegenerateVerts_pop vsize (butlast result) next_pt
      else result)"
  by pat_completeness auto
termination
  by (relation "measure (\<lambda>(vsize, result, next_pt). length result)") auto

declare removeDegenerateVerts_pop.simps [simp del]

text \<open>
  The loop over the vertices of one contour, for a set of closed polygons
  (\<open>for_polyline\<close> is false, so \<open>start_vertex\<close> is 0 and \<open>end_vertex\<close> is the size of
  the contour, and nothing is copied before or after the loop). The state is
  \<open>result\<close> and \<open>isChanged\<close>.
\<close>

function removeDegenerateVerts_loop ::
  "(Point2LL \<Rightarrow> coord_t) \<Rightarrow> Polygon \<Rightarrow> nat \<Rightarrow> Polygon \<Rightarrow> bool \<Rightarrow> Polygon \<times> bool" where
  "removeDegenerateVerts_loop vsize poly idx result isChanged =
     (if idx < length poly then
        (let last_pt = (if length result = 0 then last poly else last result) in
         if idx + 1 \<ge> length poly \<and> length result = 0 then (result, isChanged)
         else
           (let next_pt = (if idx + 1 \<ge> length poly then result ! 0 else poly ! (idx + 1)) in
            if isDegenerate vsize last_pt (poly ! idx) next_pt
            then removeDegenerateVerts_loop vsize poly (idx + 1)
                   (removeDegenerateVerts_pop vsize result next_pt) True
            else removeDegenerateVerts_loop vsize poly (idx + 1)
                   (result @ [poly ! idx]) isChanged))
      else (result, isChanged))"
  by pat_completeness auto
termination
  by (relation "measure (\<lambda>(vsize, poly, idx, result, isChanged). length poly - idx)") auto

declare removeDegenerateVerts_loop.simps [simp del]

text \<open>
  \<open>Polygons::remove(size_t index)\<close>: the last contour takes the place of the removed
  one.
\<close>

definition remove_index :: "Polygons \<Rightarrow> nat \<Rightarrow> Polygons" where
  "remove_index polys index =
     (if length polys = 1 then []
      else if length polys > 1 then
        take (length polys - 1)
          (if index < length polys - 1 then polys[index := last polys] else polys)
      else polys)"

text \<open>
  The outer loop over \<open>poly_idx\<close>. After a removal the same index is visited again
  (the source decrements the index before the loop increments it).
\<close>

function removeDegenerateVertsForEveryone_loop ::
  "(Point2LL \<Rightarrow> coord_t) \<Rightarrow> Polygons \<Rightarrow> nat \<Rightarrow> Polygons" where
  "removeDegenerateVertsForEveryone_loop vsize polys poly_idx =
     (if poly_idx < length polys then
        (let r = removeDegenerateVerts_loop vsize (polys ! poly_idx) 0 [] False in
         if snd r then
           (if length (fst r) > 2
            then removeDegenerateVertsForEveryone_loop vsize
                   (polys[poly_idx := fst r]) (poly_idx + 1)
            else removeDegenerateVertsForEveryone_loop vsize
                   (remove_index polys poly_idx) poly_idx)
         else removeDegenerateVertsForEveryone_loop vsize polys (poly_idx + 1))
      else polys)"
  by pat_completeness auto
termination
  by (relation "measure (\<lambda>(vsize, polys, poly_idx). length polys - poly_idx)")
     (auto simp: remove_index_def)

declare removeDegenerateVertsForEveryone_loop.simps [simp del]

definition removeDegenerateVertsForEveryone ::
  "(Point2LL \<Rightarrow> coord_t) \<Rightarrow> Polygons \<Rightarrow> Polygons" where
  "removeDegenerateVertsForEveryone vsize polys =
     removeDegenerateVertsForEveryone_loop vsize polys 0"


section \<open>Tolerant removal: \<open>remove\<close>\<close>










section \<open>Corner-shortcut smoothing: one window of \<open>smooth_fn\<close>\<close>

text \<open>
  The helpers of \<open>smooth_fn\<close>, for points with integer coordinates. The source
  computes lengths and angles in double precision; they are real numbers here, with
  the conversions to an integer coordinate (truncation towards zero) kept. The
  result type of \<open>angleBetweenVectors\<close> is that of \<open>dotProduct\<close>, an integer, so the
  angle in degrees is truncated.
\<close>

definition dotProduct :: "Point2LL \<Rightarrow> Point2LL \<Rightarrow> coord_t" where
  "dotProduct p0 p1 = X p0 * X p1 + Y p0 * Y p1"

definition hypot :: "real \<Rightarrow> real \<Rightarrow> real" where
  "hypot x y = sqrt (x * x + y * y)"

definition coord_of_double :: "real \<Rightarrow> int" where
  "coord_of_double r = (if 0 \<le> r then \<lfloor>r\<rfloor> else \<lceil>r\<rceil>)"

definition angleBetweenVectors :: "Point2LL \<Rightarrow> Point2LL \<Rightarrow> coord_t" where
  "angleBetweenVectors vec0 vec1 =
     (let dot = dotProduct vec0 vec1;
          vec0_mag = hypot (real_of_int (X vec0)) (real_of_int (Y vec0));
          vec1_mag = hypot (real_of_int (X vec1)) (real_of_int (Y vec1))
      in if vec0_mag = 0 \<or> vec1_mag = 0 then 90
         else
           (let cos_angle = real_of_int dot / (vec0_mag * vec1_mag);
                angle_rad = arccos cos_angle
            in coord_of_double (angle_rad * 180 / pi)))"

definition withinDeviation ::
  "Point2LL \<Rightarrow> Point2LL \<Rightarrow> Point2LL \<Rightarrow> Point2LL \<Rightarrow> real \<Rightarrow> bool" where
  "withinDeviation p0 p1 p2 p3 fluid_angle =
     (let ab = \<lparr>X = X p1 - X p0, Y = Y p1 - Y p0\<rparr>;
          bc = \<lparr>X = X p2 - X p1, Y = Y p2 - Y p1\<rparr>;
          cd = \<lparr>X = X p3 - X p2, Y = Y p3 - Y p2\<rparr>
      in real_of_int \<bar>angleBetweenVectors ab bc - angleBetweenVectors ab cd\<bar> < fluid_angle)"

text \<open>
  The body of the loop of \<open>smooth_fn\<close> for the window that starts at index \<open>i0\<close>:
  \<open>p1\<close>, \<open>p2\<close>, \<open>p3\<close> are the next three elements of the sequence (the source
  advances the pointer \<open>p0\<close>). The state is the sequence, whose points are changed in
  place, and \<open>to_remove\<close>, the set of the points marked for removal, kept by address in
  the source and by index here. \<open>size_rng\<close> is the local \<open>size\<close> of the source, the
  number of points minus one.
\<close>

definition smooth_window ::
  "int \<Rightarrow> int \<Rightarrow> real \<Rightarrow> int \<Rightarrow> Polygon \<times> nat set \<Rightarrow> nat \<Rightarrow> Polygon \<times> nat set" where
  "smooth_window max_resolution smooth_distance fluid_angle size_rng st i0 =
     (case st of (rng, to_remove) \<Rightarrow>
        let p0 = rng ! i0; p1 = rng ! (i0 + 1); p2 = rng ! (i0 + 2); p3 = rng ! (i0 + 3);
            max_distance_squared = max_resolution * max_resolution;
            shift_smooth_distance = smooth_distance * 2;
            distance_squared = \<bar>dotProduct p1 p2\<bar>
        in
          if distance_squared < max_distance_squared
             \<and> \<not> withinDeviation p0 p1 p2 p3 fluid_angle
          then
            (let p0p1_distance = hypot (real_of_int (X p1 - X p0)) (real_of_int (Y p1 - Y p0));
                 shift_p1 = (p0p1_distance > real_of_int shift_smooth_distance);
                 st1 =
                   (if shift_p1 then
                      (let shift_distance = p0p1_distance * real_of_int smooth_distance;
                           shift_distance_x = real_of_int (X p1 - X p0) / shift_distance;
                           shift_distance_y = real_of_int (Y p1 - Y p0) / shift_distance
                       in (rng[i0 + 1 :=
                             \<lparr>X = coord_of_double (real_of_int (X p1) - shift_distance_x),
                              Y = coord_of_double (real_of_int (Y p1) - shift_distance_y)\<rparr>],
                           to_remove))
                    else if size_rng - int (card to_remove) > 2
                    then (rng, insert (i0 + 1) to_remove)
                    else (rng, to_remove));
                 p2p3_distance = hypot (real_of_int (X p3 - X p2)) (real_of_int (Y p3 - Y p2));
                 shift_p2 = (p2p3_distance > real_of_int shift_smooth_distance)
             in
               (case st1 of (rng1, to_remove1) \<Rightarrow>
                  if shift_p2 then
                    (let shift_distance = p2p3_distance * real_of_int smooth_distance;
                         shift_distance_x = real_of_int (X p3 - X p2) / shift_distance;
                         shift_distance_y = real_of_int (Y p3 - Y p2) / shift_distance
                     in (rng1[i0 + 2 :=
                           \<lparr>X = coord_of_double (real_of_int (X p2) + shift_distance_x),
                            Y = coord_of_double (real_of_int (Y p2) + shift_distance_y)\<rparr>],
                         to_remove1))
                  else if size_rng - int (card to_remove1) > 2
                  then (rng1, insert (i0 + 2) to_remove1)
                  else (rng1, to_remove1)))
          else (rng, to_remove))"


section \<open>Theorems\<close>

subsection \<open>Move assignment\<close>

lemma move_assign_diverges_aux:
  "\<forall>h this polygons. this \<noteq> polygons \<longrightarrow> move_assign h this polygons = None"
proof (induction rule: move_assign.fixp_induct)
  case 1
  show ?case
    by (auto simp: ccpo.admissible_def fun_lub_def flat_lub_def)
next
  case 2
  show ?case by simp
next
  case (3 f)
  then show ?case by simp
qed

lemma move_assign_distinct_never_returns:
  "this \<noteq> polygons \<Longrightarrow> move_assign h this polygons = None"
  using move_assign_diverges_aux by blast

lemma move_assign_self_returns:
  "move_assign h this this = Some h"
  by (subst move_assign.simps) simp

text \<open>
  Claim C10 says that the move assignment returns for every source distinct from the
  receiver and leaves the source's contours in the receiver. In the code the operator
  calls itself with unchanged arguments whenever the two objects are distinct: with the
  receiver at address 0 (empty) and the source at address 1 (one triangle), the call
  never returns.
\<close>

theorem C10_move_assign_does_not_return:
  "move_assign (\<lambda>a. if a = 1 then [[Pt 0 0, Pt 1 0, Pt 0 1]] else []) 0 1 = None"
  by (rule move_assign_distinct_never_returns) simp

subsection \<open>Offset by zero\<close>

lemma offset_filled_never_returns:
  "distance \<noteq> 0 \<Longrightarrow>
   offset unionPolygons clipperOffset Filled paths distance joinType miter_limit = None"
  by (simp add: offset_def move_assign_distinct_never_returns)

text \<open>
  Claim C8: offsetting by distance zero returns, and returns exactly the input paths,
  in the same order, and the clipping engine is not invoked (the log of engine calls
  is empty), whatever the shape type, join type and miter limit are.
\<close>

theorem C8_offset_zero_identity:
  "offset unionPolygons clipperOffset shape_type paths 0 joinType miter_limit =
     Some (paths, [])"
  by (simp add: offset_def)

subsection \<open>\<open>findInside\<close>\<close>

lemma findInside_triangle:
  "findInside pointLiesOnTheRightOfLine [[Pt 0 0, Pt 10 0, Pt 0 10]] (Pt 2 2) border_result = 0"
  by (simp add: findInside_def pointLiesOnTheRightOfLine_def Pt_def int64_max_def NO_INDEX_def)

text \<open>
  Claim C9: on the empty set \<open>findInside\<close> returns 0 (the converted \<open>false\<close>), which is
  not the sentinel \<open>NO_INDEX\<close>; and 0 is also the valid answer for a non-empty set, here
  the triangle (0,0), (10,0), (0,10) queried at its interior point (2,2).
\<close>

theorem C9_findInside_empty_returns_zero:
  "findInside side [] p border_result = 0
   \<and> (0::nat) \<noteq> NO_INDEX
   \<and> findInside pointLiesOnTheRightOfLine [[Pt 0 0, Pt 10 0, Pt 0 10]] (Pt 2 2) border_result = 0"
  using findInside_triangle [of border_result] by (simp add: findInside_def NO_INDEX_def)

lemma findInside_select_count:
  "findInside_select cms k (mu, r, n) = (mu', r', n') \<Longrightarrow> n' = n + odd_count cms"
proof (induction cms arbitrary: k mu r n)
  case Nil
  then show ?case by (simp add: odd_count_def)
next
  case (Cons cm cms)
  obtain c m where cm: "cm = (c, m)" by (cases cm)
  show ?case
    using Cons.prems unfolding cm
    by (auto simp: odd_count_def split: if_splits dest!: Cons.IH [unfolded odd_count_def])
qed

lemma findInside_select_argmin:
  assumes "findInside_select cms k (mu, r, n) = (mu', r', n')"
  shows "if \<exists>j<length cms. fst (cms ! j) mod 2 = 1 \<and> snd (cms ! j) < mu
         then \<exists>i<length cms. r' = k + i \<and> fst (cms ! i) mod 2 = 1 \<and> mu' = snd (cms ! i)
                \<and> mu' < mu
                \<and> (\<forall>j<length cms. fst (cms ! j) mod 2 = 1 \<longrightarrow> mu' \<le> snd (cms ! j))
                \<and> (\<forall>j<i. fst (cms ! j) mod 2 = 1 \<longrightarrow> mu' < snd (cms ! j))
         else r' = r \<and> mu' = mu"
  using assms
proof (induction cms arbitrary: k mu r n)
  case Nil
  then show ?case by simp
next
  case (Cons cm cms)
  obtain c m where cm: "cm = (c, m)" by (cases cm)
  let ?odd = "\<lambda>xs j. fst (xs ! j) mod 2 = (1::int)"
  show ?case
  proof (cases "c mod 2 = 1 \<and> m < mu")
    case True
    then have rec: "findInside_select cms (Suc k) (m, k, n + 1) = (mu', r', n')"
      using Cons.prems cm by simp
    note IH = Cons.IH [OF rec]
    have ex: "\<exists>j<length (cm # cms). ?odd (cm # cms) j \<and> snd ((cm # cms) ! j) < mu"
      using True cm by (intro exI [of _ 0]) simp
    show ?thesis
    proof (cases "\<exists>j<length cms. ?odd cms j \<and> snd (cms ! j) < m")
      case ex2: True
      with IH obtain i where i: "i < length cms" "r' = Suc k + i" "?odd cms i"
        "mu' = snd (cms ! i)" "mu' < m"
        "\<forall>j<length cms. ?odd cms j \<longrightarrow> mu' \<le> snd (cms ! j)"
        "\<forall>j<i. ?odd cms j \<longrightarrow> mu' < snd (cms ! j)"
        by auto
      have "Suc i < length (cm # cms) \<and> r' = k + Suc i \<and> ?odd (cm # cms) (Suc i)
            \<and> mu' = snd ((cm # cms) ! Suc i) \<and> mu' < mu
            \<and> (\<forall>j<length (cm # cms). ?odd (cm # cms) j \<longrightarrow> mu' \<le> snd ((cm # cms) ! j))
            \<and> (\<forall>j<Suc i. ?odd (cm # cms) j \<longrightarrow> mu' < snd ((cm # cms) ! j))"
        using i True cm by (auto simp: nth_Cons' less_Suc_eq_0_disj)
      with ex show ?thesis by (simp only: if_True) blast
    next
      case ex2: False
      with IH have r: "r' = k" "mu' = m" by auto
      have "\<forall>j<length cms. ?odd cms j \<longrightarrow> m \<le> snd (cms ! j)"
        using ex2 by (meson not_less)
      then have "0 < length (cm # cms) \<and> r' = k + 0 \<and> ?odd (cm # cms) 0
            \<and> mu' = snd ((cm # cms) ! 0) \<and> mu' < mu
            \<and> (\<forall>j<length (cm # cms). ?odd (cm # cms) j \<longrightarrow> mu' \<le> snd ((cm # cms) ! j))
            \<and> (\<forall>j<0. ?odd (cm # cms) j \<longrightarrow> mu' < snd ((cm # cms) ! j))"
        using r True cm by (auto simp: nth_Cons' less_Suc_eq_0_disj)
      with ex show ?thesis by (simp only: if_True) blast
    qed
  next
    case False
    then have "\<exists>n0. findInside_select cms (Suc k) (mu, r, n0) = (mu', r', n')"
      using Cons.prems cm by (auto split: if_splits)
    then obtain n0 where rec: "findInside_select cms (Suc k) (mu, r, n0) = (mu', r', n')" ..
    note IH = Cons.IH [OF rec]
    have exeq: "(\<exists>j<length (cm # cms). ?odd (cm # cms) j \<and> snd ((cm # cms) ! j) < mu)
        \<longleftrightarrow> (\<exists>j<length cms. ?odd cms j \<and> snd (cms ! j) < mu)"
      using False cm by (auto simp: nth_Cons' less_Suc_eq_0_disj)
    show ?thesis
    proof (cases "\<exists>j<length cms. ?odd cms j \<and> snd (cms ! j) < mu")
      case ex2: True
      with IH obtain i where i: "i < length cms" "r' = Suc k + i" "?odd cms i"
        "mu' = snd (cms ! i)" "mu' < mu"
        "\<forall>j<length cms. ?odd cms j \<longrightarrow> mu' \<le> snd (cms ! j)"
        "\<forall>j<i. ?odd cms j \<longrightarrow> mu' < snd (cms ! j)"
        by auto
      have "Suc i < length (cm # cms) \<and> r' = k + Suc i \<and> ?odd (cm # cms) (Suc i)
            \<and> mu' = snd ((cm # cms) ! Suc i) \<and> mu' < mu
            \<and> (\<forall>j<length (cm # cms). ?odd (cm # cms) j \<longrightarrow> mu' \<le> snd ((cm # cms) ! j))
            \<and> (\<forall>j<Suc i. ?odd (cm # cms) j \<longrightarrow> mu' < snd ((cm # cms) ! j))"
        using i False cm by (auto simp: nth_Cons' less_Suc_eq_0_disj)
      with exeq ex2 show ?thesis by (simp only: if_True) blast
    next
      case ex2: False
      with IH have "r' = r \<and> mu' = mu" by auto
      with exeq ex2 show ?thesis by simp
    qed
  qed
qed


lemma findInside_scan_Inr_length:
  "findInside_scan side p b polys k = Inr cms \<Longrightarrow> length cms = length polys"
  by (induction polys arbitrary: k cms) (auto split: option.splits sum.splits)

lemma findInside_scan_Inr_nth:
  "findInside_scan side p b polys k = Inr cms \<Longrightarrow> i < length polys \<Longrightarrow>
   findInside_edges side p b (polys ! i) (last (polys ! i)) 0 int64_max = Some (cms ! i)"
proof (induction polys arbitrary: k cms i)
  case Nil
  then show ?case by simp
next
  case (Cons poly polys)
  then show ?case
    by (cases i) (auto split: option.splits sum.splits)
qed

lemma findInside_scan_Inl:
  "findInside_scan side p b polys k = Inl r \<Longrightarrow>
   \<exists>i<length polys. r = k + i
      \<and> findInside_edges side p b (polys ! i) (last (polys ! i)) 0 int64_max = None
      \<and> (\<forall>j<i. findInside_edges side p b (polys ! j) (last (polys ! j)) 0 int64_max \<noteq> None)"
proof (induction polys arbitrary: k)
  case Nil
  then show ?case by simp
next
  case (Cons poly polys)
  show ?case
  proof (cases "findInside_edges side p b poly (last poly) 0 int64_max")
    case None
    with Cons.prems have "r = k" by simp
    with None show ?thesis by (intro exI [of _ 0]) simp
  next
    case (Some cm)
    with Cons.prems have "findInside_scan side p b polys (k + 1) = Inl r"
      by (auto split: sum.splits)
    from Cons.IH [OF this] obtain i where i: "i < length polys" "r = k + 1 + i"
      "findInside_edges side p b (polys ! i) (last (polys ! i)) 0 int64_max = None"
      "\<forall>j<i. findInside_edges side p b (polys ! j) (last (polys ! j)) 0 int64_max \<noteq> None"
      by blast
    have "\<forall>j<Suc i. findInside_edges side p b ((poly # polys) ! j) (last ((poly # polys) ! j))
                0 int64_max \<noteq> None"
      using i(4) Some by (auto simp: nth_Cons' less_Suc_eq_0_disj)
    with i show ?thesis by (intro exI [of _ "Suc i"]) simp
  qed
qed

lemma findInside_edges_border_only:
  "findInside_edges side p False poly p0 c m \<noteq> None"
  by (induction poly arbitrary: p0 c m) (auto simp: Let_def)

text \<open>
  On a non-empty set \<open>findInside\<close> does what its description says. If the scan
  returns early, the result is the index of the first contour with an edge the point
  lies on, and \<open>border_result\<close> is set. Otherwise, provided every crossing x that was
  recorded is below the largest 64-bit value, the result is the sentinel when the
  number of contours with an odd crossing count is even, and else the index of the
  first contour among those with an odd count whose minimal crossing x is smallest.
\<close>

lemma findInside_nonempty:
  assumes ne: "polys \<noteq> []"
  shows "(\<forall>r. findInside_scan side p border_result polys 0 = Inl r \<longrightarrow>
            findInside side polys p border_result = r \<and> border_result \<and> r < length polys
            \<and> findInside_edges side p border_result (polys ! r) (last (polys ! r)) 0 int64_max = None
            \<and> (\<forall>j<r. findInside_edges side p border_result (polys ! j) (last (polys ! j))
                        0 int64_max \<noteq> None))
         \<and> (\<forall>cms. findInside_scan side p border_result polys 0 = Inr cms
                    \<and> (\<forall>j<length cms. fst (cms ! j) mod 2 = 1 \<longrightarrow> snd (cms ! j) < int64_max) \<longrightarrow>
              length cms = length polys
              \<and> (if even (odd_count cms) then findInside side polys p border_result = NO_INDEX
                 else \<exists>i<length cms. findInside side polys p border_result = i
                        \<and> fst (cms ! i) mod 2 = 1
                        \<and> (\<forall>j<length cms. fst (cms ! j) mod 2 = 1 \<longrightarrow> snd (cms ! i) \<le> snd (cms ! j))
                        \<and> (\<forall>j<i. fst (cms ! j) mod 2 = 1 \<longrightarrow> snd (cms ! i) < snd (cms ! j))))"
proof -
  have border: "findInside side polys p border_result = r \<and> border_result \<and> r < length polys
            \<and> findInside_edges side p border_result (polys ! r) (last (polys ! r)) 0 int64_max = None
            \<and> (\<forall>j<r. findInside_edges side p border_result (polys ! j) (last (polys ! j))
                        0 int64_max \<noteq> None)"
    if scan: "findInside_scan side p border_result polys 0 = Inl r" for r
  proof -
    from findInside_scan_Inl [OF scan] obtain i where i: "i < length polys" "r = i"
      "findInside_edges side p border_result (polys ! i) (last (polys ! i)) 0 int64_max = None"
      "\<forall>j<i. findInside_edges side p border_result (polys ! j) (last (polys ! j)) 0 int64_max \<noteq> None"
      by auto
    from i(3) have b: "border_result"
      using findInside_edges_border_only by (cases border_result) auto
    show ?thesis
      using ne scan i b by (simp add: findInside_def)
  qed
  have parity: "length cms = length polys
              \<and> (if even (odd_count cms) then findInside side polys p border_result = NO_INDEX
                 else \<exists>i<length cms. findInside side polys p border_result = i
                        \<and> fst (cms ! i) mod 2 = 1
                        \<and> (\<forall>j<length cms. fst (cms ! j) mod 2 = 1 \<longrightarrow> snd (cms ! i) \<le> snd (cms ! j))
                        \<and> (\<forall>j<i. fst (cms ! j) mod 2 = 1 \<longrightarrow> snd (cms ! i) < snd (cms ! j)))"
    if a: "findInside_scan side p border_result polys 0 = Inr cms
                    \<and> (\<forall>j<length cms. fst (cms ! j) mod 2 = 1 \<longrightarrow> snd (cms ! j) < int64_max)"
    for cms
  proof -
    from a have scan: "findInside_scan side p border_result polys 0 = Inr cms"
      and bound: "\<forall>j<length cms. fst (cms ! j) mod 2 = 1 \<longrightarrow> snd (cms ! j) < int64_max"
      by auto
    have len: "length cms = length polys" using scan by (rule findInside_scan_Inr_length)
    obtain mu' r' n' where sel: "findInside_select cms 0 (int64_max, NO_INDEX, 0) = (mu', r', n')"
      by (cases "findInside_select cms 0 (int64_max, NO_INDEX, 0)") auto
    have n': "n' = odd_count cms" using findInside_select_count [OF sel] by simp
    have res: "findInside side polys p border_result =
                 (if even (odd_count cms) then NO_INDEX else r')"
      using ne scan sel n' by (simp add: findInside_def even_iff_mod_2_eq_zero)
    have "if even (odd_count cms) then findInside side polys p border_result = NO_INDEX
                 else \<exists>i<length cms. findInside side polys p border_result = i
                        \<and> fst (cms ! i) mod 2 = 1
                        \<and> (\<forall>j<length cms. fst (cms ! j) mod 2 = 1 \<longrightarrow> snd (cms ! i) \<le> snd (cms ! j))
                        \<and> (\<forall>j<i. fst (cms ! j) mod 2 = 1 \<longrightarrow> snd (cms ! i) < snd (cms ! j))"
    proof (cases "even (odd_count cms)")
      case True
      with res show ?thesis by simp
    next
      case False
      then have "odd_count cms \<noteq> 0" by (cases "odd_count cms = 0") simp_all
      then have "filter (\<lambda>cm. fst cm mod 2 = 1) cms \<noteq> []" by (simp add: odd_count_def)
      then obtain cm where "cm \<in> set cms" "fst cm mod 2 = 1"
        by (auto simp: filter_empty_conv)
      then obtain j where j: "j < length cms" "fst (cms ! j) mod 2 = 1"
        by (auto simp: in_set_conv_nth)
      with bound have "\<exists>j<length cms. fst (cms ! j) mod 2 = 1 \<and> snd (cms ! j) < int64_max"
        by blast
      then have "\<exists>i<length cms. r' = 0 + i \<and> fst (cms ! i) mod 2 = 1 \<and> mu' = snd (cms ! i)
                \<and> mu' < int64_max
                \<and> (\<forall>j<length cms. fst (cms ! j) mod 2 = 1 \<longrightarrow> mu' \<le> snd (cms ! j))
                \<and> (\<forall>j<i. fst (cms ! j) mod 2 = 1 \<longrightarrow> mu' < snd (cms ! j))"
        using findInside_select_argmin [OF sel] by (simp only: if_True)
      then obtain i where i: "i < length cms" "r' = i" "fst (cms ! i) mod 2 = 1"
        "mu' = snd (cms ! i)"
        "\<forall>j<length cms. fst (cms ! j) mod 2 = 1 \<longrightarrow> mu' \<le> snd (cms ! j)"
        "\<forall>j<i. fst (cms ! j) mod 2 = 1 \<longrightarrow> mu' < snd (cms ! j)"
        by auto
      from res False have "findInside side polys p border_result = i"
        using i(2) by simp
      with i have "\<exists>i<length cms. findInside side polys p border_result = i
                        \<and> fst (cms ! i) mod 2 = 1
                        \<and> (\<forall>j<length cms. fst (cms ! j) mod 2 = 1 \<longrightarrow> snd (cms ! i) \<le> snd (cms ! j))
                        \<and> (\<forall>j<i. fst (cms ! j) mod 2 = 1 \<longrightarrow> snd (cms ! i) < snd (cms ! j))"
        by blast
      with False show ?thesis by (simp only: if_False)
    qed
    with len show ?thesis by (rule conjI)
  qed
  from border parity show ?thesis by blast
qed

text \<open>
  Claim C1 says that \<open>findInside\<close> returns the sentinel whenever the number of contours
  with an odd crossing count is even. On the empty set the scan finds no contour at
  all, so that number is 0, yet the result is not the sentinel.
\<close>

theorem C1_findInside_empty_not_sentinel:
  "findInside_scan side p border_result [] 0 = Inr []
   \<and> even (odd_count [])
   \<and> findInside side [] p border_result \<noteq> NO_INDEX"
  by (simp add: findInside_def odd_count_def NO_INDEX_def)

subsection \<open>\<open>inside\<close>\<close>

lemma smod2_nonneg: "0 \<le> (n::int) \<Longrightarrow> (n smod 2 = 1) = odd n"
  by (cases "n = 0") (auto simp: smod_int_alt_def odd_iff_mod_2_eq_one)

lemma inside_loop_no_border:
  "\<forall>poly\<in>set polys. PointInPolygon p poly \<in> {0, 1} \<Longrightarrow> 0 \<le> n \<Longrightarrow>
   inside_loop PointInPolygon p border_result polys n c =
     (odd (n + sum_list (map (PointInPolygon p) polys)), c + length polys)"
proof (induction polys arbitrary: n c)
  case Nil
  then show ?case by (simp add: smod2_nonneg)
next
  case (Cons poly polys)
  from Cons.prems have r: "PointInPolygon p poly = 0 \<or> PointInPolygon p poly = 1" by simp
  from Cons.prems have rest: "\<forall>q\<in>set polys. PointInPolygon p q \<in> {0, 1}" by simp
  from r Cons.prems(2) have nn: "0 \<le> n + PointInPolygon p poly" by auto
  show ?case
    using r Cons.IH [OF rest nn] by (auto simp: Let_def add.assoc)
qed

lemma inside_loop_border:
  "\<forall>q\<in>set pre. PointInPolygon p q \<noteq> -1 \<Longrightarrow> PointInPolygon p poly = -1 \<Longrightarrow>
   inside_loop PointInPolygon p border_result (pre @ poly # rest) n c =
     (border_result, c + length pre + 1)"
  by (induction pre arbitrary: n c) (auto simp: Let_def)

text \<open>
  Claim C5: with an engine answering 0, 1 or -1, \<open>inside\<close> adds the per-contour answers
  in order and returns true iff the sum is odd, having asked the engine once per
  contour; and as soon as one contour answers -1 (on the border) it returns
  \<open>border_result\<close>, having asked the engine only for the contours up to that one.
\<close>

theorem C5_inside_even_odd:
  assumes "\<forall>poly\<in>set polys. PointInPolygon p poly \<in> {-1, 0, 1}"
  shows "((\<forall>poly\<in>set polys. PointInPolygon p poly \<noteq> -1) \<longrightarrow>
            inside PointInPolygon polys p border_result =
              (odd (\<Sum>poly\<leftarrow>polys. PointInPolygon p poly), length polys))
         \<and> (\<forall>pre poly rest.
              polys = pre @ poly # rest \<and> PointInPolygon p poly = -1
                \<and> (\<forall>q\<in>set pre. PointInPolygon p q \<noteq> -1) \<longrightarrow>
              inside PointInPolygon polys p border_result = (border_result, length pre + 1))"
proof (intro conjI impI allI)
  assume nb: "\<forall>poly\<in>set polys. PointInPolygon p poly \<noteq> -1"
  with assms have "\<forall>poly\<in>set polys. PointInPolygon p poly \<in> {0, 1}" by auto
  then show "inside PointInPolygon polys p border_result =
               (odd (\<Sum>poly\<leftarrow>polys. PointInPolygon p poly), length polys)"
    using inside_loop_no_border [of polys PointInPolygon p 0 border_result 0]
    by (simp add: inside_def)
next
  fix pre poly rest
  assume "polys = pre @ poly # rest \<and> PointInPolygon p poly = -1
            \<and> (\<forall>q\<in>set pre. PointInPolygon p q \<noteq> -1)"
  then show "inside PointInPolygon polys p border_result = (border_result, length pre + 1)"
    using inside_loop_border [of pre PointInPolygon p poly border_result rest 0 0]
    by (simp add: inside_def)
qed


lemma crossing_PointInPolygon_values:
  "crossing_PointInPolygon (Pt 100 100) [Pt 0 0, Pt 1000 0, Pt 1000 1000, Pt 0 1000] = 1"
  "crossing_PointInPolygon (Pt 100 100) [Pt 250 250, Pt 250 750, Pt 750 750, Pt 750 250] = 0"
  "crossing_PointInPolygon (Pt 250 500) [Pt 0 0, Pt 1000 0, Pt 1000 1000, Pt 0 1000] = 1"
  "crossing_PointInPolygon (Pt 250 500) [Pt 250 250, Pt 250 750, Pt 750 750, Pt 750 250] = -1"
  by (simp_all add: crossing_PointInPolygon_def pointLiesOnTheRightOfLine_def Pt_def int64_max_def)

theorem C5_inside_even_odd_witness:
  "crossing_PointInPolygon (Pt 100 100) [Pt 0 0, Pt 1000 0, Pt 1000 1000, Pt 0 1000] = 1
   \<and> crossing_PointInPolygon (Pt 100 100) [Pt 250 250, Pt 250 750, Pt 750 750, Pt 750 250] = 0
   \<and> crossing_PointInPolygon (Pt 250 500) [Pt 250 250, Pt 250 750, Pt 750 750, Pt 750 250] = -1
   \<and> inside crossing_PointInPolygon
        [[Pt 0 0, Pt 1000 0, Pt 1000 1000, Pt 0 1000],
         [Pt 250 250, Pt 250 750, Pt 750 750, Pt 750 250]] (Pt 100 100) False = (True, 2)
   \<and> inside crossing_PointInPolygon
        [[Pt 250 250, Pt 250 750, Pt 750 750, Pt 750 250],
         [Pt 0 0, Pt 1000 0, Pt 1000 1000, Pt 0 1000]] (Pt 250 500) True = (True, 1)"
proof -
  let ?sq = "[Pt 0 0, Pt 1000 0, Pt 1000 1000, Pt 0 1000]"
  let ?hole = "[Pt 250 250, Pt 250 750, Pt 750 750, Pt 750 250]"
  have r1: "\<forall>poly\<in>set [?sq, ?hole]. crossing_PointInPolygon (Pt 100 100) poly \<in> {-1, 0, 1}"
    by (simp add: crossing_PointInPolygon_values)
  have r2: "\<forall>poly\<in>set [?hole, ?sq]. crossing_PointInPolygon (Pt 250 500) poly \<in> {-1, 0, 1}"
    by (simp add: crossing_PointInPolygon_values)
  have a: "inside crossing_PointInPolygon [?sq, ?hole] (Pt 100 100) False = (True, 2)"
    using C5_inside_even_odd [of "[?sq, ?hole]" crossing_PointInPolygon "Pt 100 100" False,
            OF r1, THEN conjunct1]
    by (simp add: crossing_PointInPolygon_values)
  have b: "inside crossing_PointInPolygon [?hole, ?sq] (Pt 250 500) True = (True, 1)"
    using C5_inside_even_odd [of "[?hole, ?sq]" crossing_PointInPolygon "Pt 250 500" True,
            OF r2, THEN conjunct2, rule_format, of "[]" ?hole "[?sq]"]
    by (simp add: crossing_PointInPolygon_values)
  from a b show ?thesis by (simp add: crossing_PointInPolygon_values)
qed

subsection \<open>\<open>removeSmallAreaCircumference\<close>\<close>

lemma rsac_loop_step:
  "\<exists>emit f'. \<forall>np. removeSmallAreaCircumference_loop a l ma mc rh (poly # xs) np f =
      removeSmallAreaCircumference_loop a l ma mc rh xs (np @ emit) f'"
proof (cases "0 \<le> a poly")
  case True
  show ?thesis
  proof (cases "mc \<le> l poly \<and> ma \<le> \<bar>a poly\<bar>")
    case m: True
    have "\<forall>np. removeSmallAreaCircumference_loop a l ma mc rh (poly # xs) np f =
      removeSmallAreaCircumference_loop a l ma mc rh xs (np @ [poly]) False"
      using True m by (auto simp add: Let_def)
    then show ?thesis by blast
  next
    case m: False
    have "\<forall>np. removeSmallAreaCircumference_loop a l ma mc rh (poly # xs) np f =
      removeSmallAreaCircumference_loop a l ma mc rh xs (np @ []) True"
      using True m by (auto simp add: Let_def)
    then show ?thesis by blast
  qed
next
  case False
  show ?thesis
  proof (cases "\<not> f \<and> (\<not> rh \<or> (mc \<le> l poly \<and> ma \<le> \<bar>a poly\<bar>))")
    case k: True
    have "\<forall>np. removeSmallAreaCircumference_loop a l ma mc rh (poly # xs) np f =
      removeSmallAreaCircumference_loop a l ma mc rh xs (np @ [poly]) f"
      using False k by (auto simp add: Let_def)
    then show ?thesis by blast
  next
    case k: False
    have "\<forall>np. removeSmallAreaCircumference_loop a l ma mc rh (poly # xs) np f =
      removeSmallAreaCircumference_loop a l ma mc rh xs (np @ []) f"
      using False k by (auto simp add: Let_def)
    then show ?thesis by blast
  qed
qed

lemma rsac_loop_acc:
  "removeSmallAreaCircumference_loop a l ma mc rh xs np f =
     (np @ fst (removeSmallAreaCircumference_loop a l ma mc rh xs [] f),
      snd (removeSmallAreaCircumference_loop a l ma mc rh xs [] f))"
proof (induction xs arbitrary: np f)
  case Nil
  show ?case by simp
next
  case (Cons poly xs)
  obtain emit f' where
    st: "\<And>np. removeSmallAreaCircumference_loop a l ma mc rh (poly # xs) np f =
      removeSmallAreaCircumference_loop a l ma mc rh xs (np @ emit) f'"
    using rsac_loop_step [of a l ma mc rh poly xs f] by blast
  have "removeSmallAreaCircumference_loop a l ma mc rh xs (np @ emit) f' =
      ((np @ emit) @ fst (removeSmallAreaCircumference_loop a l ma mc rh xs [] f'),
       snd (removeSmallAreaCircumference_loop a l ma mc rh xs [] f'))"
    by (rule Cons.IH)
  moreover have "removeSmallAreaCircumference_loop a l ma mc rh xs ([] @ emit) f' =
      (([] @ emit) @ fst (removeSmallAreaCircumference_loop a l ma mc rh xs [] f'),
       snd (removeSmallAreaCircumference_loop a l ma mc rh xs [] f'))"
    by (rule Cons.IH)
  ultimately show ?case
    by (simp only: st [of np] st [of "[]"] fst_conv snd_conv append_assoc append_Nil)
qed

lemma rsac_loop_append:
  "removeSmallAreaCircumference_loop a l ma mc rh (xs @ ys) np f =
     removeSmallAreaCircumference_loop a l ma mc rh ys
       (fst (removeSmallAreaCircumference_loop a l ma mc rh xs np f))
       (snd (removeSmallAreaCircumference_loop a l ma mc rh xs np f))"
proof (induction xs arbitrary: np f)
  case Nil
  show ?case by simp
next
  case (Cons x xs)
  show ?case using Cons.IH by (cases rh) (auto simp: Let_def)
qed

lemma rsac_loop_holes_removed:
  "\<forall>h\<in>set hs. a h < 0 \<Longrightarrow>
   removeSmallAreaCircumference_loop a l ma mc rh (hs @ rest) np True =
     removeSmallAreaCircumference_loop a l ma mc rh rest np True"
  by (induction hs) (simp_all add: Let_def)

lemma rsac_loop_holes_kept:
  "\<forall>h\<in>set hs. a h < 0 \<Longrightarrow>
   removeSmallAreaCircumference_loop a l ma mc rh (hs @ rest) np False =
     removeSmallAreaCircumference_loop a l ma mc rh rest
       (np @ filter (\<lambda>h. \<not> rh \<or> meets_thresholds a l ma mc h) hs) False"
proof (induction hs arbitrary: np)
  case Nil
  show ?case by simp
next
  case (Cons x hs)
  from Cons.prems have IH: "\<And>np. removeSmallAreaCircumference_loop a l ma mc rh (hs @ rest) np False =
     removeSmallAreaCircumference_loop a l ma mc rh rest
       (np @ filter (\<lambda>h. \<not> rh \<or> meets_thresholds a l ma mc h) hs) False"
    using Cons.IH by simp
  from Cons.prems have neg: "a x < 0" by simp
  show ?case using IH neg by (cases rh) (auto simp: Let_def meets_thresholds_def)
qed

lemma rsac_loop_flag_irrelevant:
  "rest = [] \<or> 0 \<le> a (hd rest) \<Longrightarrow>
   fst (removeSmallAreaCircumference_loop a l ma mc rh rest np f) =
     np @ fst (removeSmallAreaCircumference_loop a l ma mc rh rest [] False)"
proof (cases rest)
  case Nil
  then show ?thesis by simp
next
  case (Cons r rs)
  assume "rest = [] \<or> 0 \<le> a (hd rest)"
  with Cons have o: "0 \<le> a r" by simp
  have "removeSmallAreaCircumference_loop a l ma mc rh (r # rs) np f =
        removeSmallAreaCircumference_loop a l ma mc rh (r # rs) np False"
    using o by (simp add: Let_def)
  then show ?thesis
    using Cons rsac_loop_acc [of a l ma mc rh "r # rs" np False] by (simp only: fst_conv)
qed

text \<open>
  Claim C2: take any input that reads: some contours \<open>pre\<close>, then an outline, then
  holes only, then either nothing or a next outline. After the outline the flag is set
  exactly when the outline fails a threshold. If the outline meets both thresholds it
  is kept and each of its holes is judged on its own (kept unless \<open>remove_holes\<close> is set
  and the hole fails a threshold); if it fails either threshold it is dropped together
  with every hole up to the next outline, whatever their areas and circumferences are.
  The output for \<open>pre\<close> and for the contours from the next outline on is what the
  operation gives on them alone. The case of a failing outline followed by one larger
  hole, with \<open>remove_holes\<close> false, is an instance and gives the empty set.
\<close>

theorem C2_removeSmallAreaCircumference_cascade:
  assumes outline: "0 \<le> area_of outl"
    and holes: "\<forall>h\<in>set holes. area_of h < 0"
    and rest: "rest = [] \<or> 0 \<le> area_of (hd rest)"
  shows "snd (removeSmallAreaCircumference_loop area_of length_of min_area min_circ remove_holes
                (pre @ [outl]) [] False) =
           (\<not> meets_thresholds area_of length_of min_area min_circ outl)
         \<and>
         removeSmallAreaCircumference area_of length_of min_area min_circ remove_holes
           (pre @ outl # holes @ rest) =
         removeSmallAreaCircumference area_of length_of min_area min_circ remove_holes pre
         @ (if meets_thresholds area_of length_of min_area min_circ outl
            then outl # filter (\<lambda>h. \<not> remove_holes
                                  \<or> meets_thresholds area_of length_of min_area min_circ h) holes
            else [])
         @ removeSmallAreaCircumference area_of length_of min_area min_circ remove_holes rest"
proof -
  let ?L = "removeSmallAreaCircumference_loop area_of length_of min_area min_circ remove_holes"
  obtain np1 f1 where pre: "?L pre [] False = (np1, f1)" by (cases "?L pre [] False")
  have split: "?L (pre @ outl # holes @ rest) [] False = ?L (outl # holes @ rest) np1 f1"
    using rsac_loop_append [of area_of length_of min_area min_circ remove_holes pre
            "outl # holes @ rest" "[]" False] pre by simp
  have flag: "snd (?L (pre @ [outl]) [] False) =
      (\<not> meets_thresholds area_of length_of min_area min_circ outl)"
    using rsac_loop_append [of area_of length_of min_area min_circ remove_holes pre
            "[outl]" "[]" False] pre outline
    by (auto simp add: Let_def meets_thresholds_def)
  have main: "removeSmallAreaCircumference area_of length_of min_area min_circ remove_holes
           (pre @ outl # holes @ rest) =
         removeSmallAreaCircumference area_of length_of min_area min_circ remove_holes pre
         @ (if meets_thresholds area_of length_of min_area min_circ outl
            then outl # filter (\<lambda>h. \<not> remove_holes
                                  \<or> meets_thresholds area_of length_of min_area min_circ h) holes
            else [])
         @ removeSmallAreaCircumference area_of length_of min_area min_circ remove_holes rest"
  proof (cases "meets_thresholds area_of length_of min_area min_circ outl")
    case True
    then have "?L (outl # holes @ rest) np1 f1 = ?L (holes @ rest) (np1 @ [outl]) False"
      using outline by (simp add: Let_def meets_thresholds_def)
    also have "\<dots> = ?L rest ((np1 @ [outl]) @ filter (\<lambda>h. \<not> remove_holes
                  \<or> meets_thresholds area_of length_of min_area min_circ h) holes) False"
      using rsac_loop_holes_kept [OF holes] by blast
    finally have "fst (?L (pre @ outl # holes @ rest) [] False) =
        ((np1 @ [outl]) @ filter (\<lambda>h. \<not> remove_holes
                  \<or> meets_thresholds area_of length_of min_area min_circ h) holes)
        @ fst (?L rest [] False)"
      using split rsac_loop_flag_irrelevant [of rest area_of length_of min_area min_circ
          remove_holes "(np1 @ [outl]) @ filter (\<lambda>h. \<not> remove_holes
                  \<or> meets_thresholds area_of length_of min_area min_circ h) holes" False, OF rest]
      by (simp only:)
    then show ?thesis
      using True pre by (simp add: removeSmallAreaCircumference_def)
  next
    case False
    then have "?L (outl # holes @ rest) np1 f1 = ?L (holes @ rest) np1 True"
      using outline by (auto simp add: Let_def meets_thresholds_def)
    also have "\<dots> = ?L rest np1 True"
      using rsac_loop_holes_removed [OF holes] by blast
    finally have "fst (?L (pre @ outl # holes @ rest) [] False) = np1 @ fst (?L rest [] False)"
      using split rsac_loop_flag_irrelevant [of rest area_of length_of min_area min_circ
          remove_holes np1 True, OF rest]
      by (simp only:)
    then show ?thesis
      using False pre by (simp add: removeSmallAreaCircumference_def)
  qed
  from flag main show ?thesis by (rule conjI)
qed

lemma polygon_area_values:
  "polygon_area [Pt 0 0, Pt 10 0, Pt 10 10, Pt 0 10] = 100"
  "polygon_area [Pt 250 250, Pt 250 750, Pt 750 750, Pt 750 250] = -250000"
  by (simp_all add: polygon_area_def Pt_def)

theorem C2_removeSmallAreaCircumference_cascade_witness:
  "0 \<le> polygon_area [Pt 0 0, Pt 10 0, Pt 10 10, Pt 0 10]
   \<and> polygon_area [Pt 250 250, Pt 250 750, Pt 750 750, Pt 750 250] < 0
   \<and> removeSmallAreaCircumference polygon_area polygon_length 1000 0 False
        [[Pt 0 0, Pt 10 0, Pt 10 10, Pt 0 10],
         [Pt 250 250, Pt 250 750, Pt 750 750, Pt 750 250]] = []"
  using C2_removeSmallAreaCircumference_cascade
          [of polygon_area "[Pt 0 0, Pt 10 0, Pt 10 10, Pt 0 10]"
              "[[Pt 250 250, Pt 250 750, Pt 750 750, Pt 750 250]]" "[]"
              polygon_length 1000 0 False "[]"]
  by (simp add: polygon_area_values meets_thresholds_def removeSmallAreaCircumference_def)

subsection \<open>\<open>ensureManifold\<close>\<close>

lemma ensureManifold_points_count:
  "count_list (fst (ensureManifold_points xs (d, S))) p =
     count_list d p + (if p \<in> S then count_list xs p else count_list xs p - 1)"
  by (induction xs arbitrary: d S) auto

lemma ensureManifold_scan_concat:
  "ensureManifold_scan polys st = ensureManifold_points (concat polys) st"
proof (induction polys arbitrary: st)
  case Nil
  show ?case by simp
next
  case (Cons poly polys)
  have app: "\<And>xs ys st. ensureManifold_points (xs @ ys) st =
      ensureManifold_points ys (ensureManifold_points xs st)"
  proof -
    fix xs :: "Point2LL list" and ys st
    show "ensureManifold_points (xs @ ys) st =
      ensureManifold_points ys (ensureManifold_points xs st)"
      by (induction xs arbitrary: st) (auto split: prod.splits)
  qed
  show ?case by (simp add: Cons.IH app)
qed

lemma duplicate_locations_count:
  "count_list (duplicate_locations polys) p = count_list (concat polys) p - 1"
  by (simp add: duplicate_locations_def ensureManifold_scan_concat ensureManifold_points_count)

lemma distinct_count_list_le_1:
  "distinct xs \<longleftrightarrow> (\<forall>a. count_list xs a \<le> 1)"
proof (induction xs)
  case Nil
  show ?case by simp
next
  case (Cons x xs)
  show ?case
  proof
    assume d: "distinct (x # xs)"
    then have "count_list xs x = 0" by (simp add: count_list_0_iff)
    with d Cons show "\<forall>a. count_list (x # xs) a \<le> 1" by auto
  next
    assume c: "\<forall>a. count_list (x # xs) a \<le> 1"
    then have "count_list (x # xs) x \<le> 1" by blast
    then have "x \<notin> set xs" by (simp add: count_list_0_iff)
    moreover have "\<forall>a. count_list xs a \<le> 1"
    proof
      fix a
      from c have "count_list (x # xs) a \<le> 1" by blast
      then show "count_list xs a \<le> 1" by (simp split: if_splits)
    qed
    ultimately show "distinct (x # xs)" using Cons by simp
  qed
qed

lemma duplicate_locations_empty_iff:
  "duplicate_locations polys = [] \<longleftrightarrow> distinct (concat polys)"
proof -
  have "duplicate_locations polys = [] \<longleftrightarrow> (\<forall>a. count_list (duplicate_locations polys) a = 0)"
    by (metis count_list_0_iff empty_iff list.set(1) last_in_set)
  also have "\<dots> \<longleftrightarrow> (\<forall>a. count_list (concat polys) a \<le> 1)"
    by (simp add: duplicate_locations_count)
  finally show ?thesis by (simp add: distinct_count_list_le_1)
qed


lemma removal_dots_empty_iff:
  "removal_dots polys = [] \<longleftrightarrow> distinct (concat polys)"
  using duplicate_locations_empty_iff [of polys] by (simp add: removal_dots_def)

lemma ensureManifold_repeated_never_returns:
  "\<not> distinct (concat polys) \<Longrightarrow> ensureManifold difference polys = None"
  by (simp add: ensureManifold_def removal_dots_empty_iff move_assign_distinct_never_returns)




subsection \<open>\<open>removeDegenerateVertsForEveryone\<close>\<close>

lemma removeDegenerateVerts_first_pass:
  "removeDegenerateVertsForEveryone vSize
     [[Pt 10 0, Pt 30 0, Pt 30 10, Pt 20 10, Pt 20 0, Pt 0 0]] =
   [[Pt 10 0, Pt 30 0, Pt 30 10, Pt 20 10, Pt 20 0]]"
  by code_simp

lemma removeDegenerateVerts_second_pass:
  "removeDegenerateVertsForEveryone vSize
     [[Pt 10 0, Pt 30 0, Pt 30 10, Pt 20 10, Pt 20 0]] =
   [[Pt 30 0, Pt 30 10, Pt 20 10, Pt 20 0]]"
  by code_simp

text \<open>
  Claim C6 says that removing degenerate vertices twice gives the same set as removing
  them once. In the contour (10,0), (30,0), (30,10), (20,10), (20,0), (0,0) the last
  vertex is the tip of a spike and is removed in the first pass; the first vertex
  (10,0) was tested against that last vertex before it was removed, and is kept. In
  the second pass (10,0) is tested against the new last vertex (20,0), is degenerate
  and is removed: the second pass changes the set.
\<close>

theorem C6_removeDegenerateVerts_second_pass_differs:
  "removeDegenerateVertsForEveryone vSize
     (removeDegenerateVertsForEveryone vSize
        [[Pt 10 0, Pt 30 0, Pt 30 10, Pt 20 10, Pt 20 0, Pt 0 0]]) =
     [[Pt 30 0, Pt 30 10, Pt 20 10, Pt 20 0]]
   \<and> removeDegenerateVertsForEveryone vSize
        [[Pt 10 0, Pt 30 0, Pt 30 10, Pt 20 10, Pt 20 0, Pt 0 0]] =
     [[Pt 10 0, Pt 30 0, Pt 30 10, Pt 20 10, Pt 20 0]]
   \<and> removeDegenerateVertsForEveryone vSize
        (removeDegenerateVertsForEveryone vSize
           [[Pt 10 0, Pt 30 0, Pt 30 10, Pt 20 10, Pt 20 0, Pt 0 0]]) \<noteq>
      removeDegenerateVertsForEveryone vSize
        [[Pt 10 0, Pt 30 0, Pt 30 10, Pt 20 10, Pt 20 0, Pt 0 0]]"
  by (simp add: removeDegenerateVerts_first_pass removeDegenerateVerts_second_pass)

subsection \<open>\<open>remove\<close> with a tolerance\<close>




















subsection \<open>The smoothing window\<close>

lemma hypot_axis: "0 \<le> y \<Longrightarrow> hypot 0 y = y" "0 \<le> x \<Longrightarrow> hypot x 0 = x"
  by (simp_all add: hypot_def)

lemma coord_of_double_of_int: "coord_of_double (real_of_int k) = k"
  by (simp add: coord_of_double_def)

lemma angle_right:
  "0 < a \<Longrightarrow> 0 < b \<Longrightarrow> angleBetweenVectors \<lparr>X = 0, Y = a\<rparr> \<lparr>X = b, Y = 0\<rparr> = 90"
  using coord_of_double_of_int [of 90]
  by (simp add: angleBetweenVectors_def dotProduct_def hypot_axis Let_def)

lemma angle_same:
  "0 < a \<Longrightarrow> 0 < b \<Longrightarrow> angleBetweenVectors \<lparr>X = 0, Y = a\<rparr> \<lparr>X = 0, Y = b\<rparr> = 0"
  using coord_of_double_of_int [of 0]
  by (simp add: angleBetweenVectors_def dotProduct_def hypot_axis Let_def)

lemma withinDeviation_long_segment:
  "\<not> withinDeviation (Pt 0 (-5)) (Pt 0 0) (Pt 1000 0) (Pt 1000 5) 10"
  by (simp add: withinDeviation_def Pt_def Let_def angle_right angle_same)

lemma withinDeviation_short_segment:
  "\<not> withinDeviation (Pt 1000 0) (Pt 1000 1000) (Pt 1001 1000) (Pt 1001 2000) 10"
  by (simp add: withinDeviation_def Pt_def Let_def angle_right angle_same)

lemma withinDeviation_shift:
  "\<not> withinDeviation (Pt 10 (-1000)) (Pt 10 10) (Pt 1000 10) (Pt 1000 1010) 10"
  by (simp add: withinDeviation_def Pt_def Let_def angle_right angle_same)

lemma smooth_window_long_segment:
  "smooth_window 10 5 10 4
     ([Pt 0 (-5), Pt 0 0, Pt 1000 0, Pt 1000 5, Pt 0 (-5)], {}) 0 =
     ([Pt 0 (-5), Pt 0 0, Pt 1000 0, Pt 1000 5, Pt 0 (-5)], {1, 2})"
  using withinDeviation_long_segment
  by (auto simp add: smooth_window_def Let_def dotProduct_def hypot_axis Pt_def)

lemma smooth_window_short_segment:
  "smooth_window 10 5 10 4
     ([Pt 1000 0, Pt 1000 1000, Pt 1001 1000, Pt 1001 2000, Pt 1000 0], {}) 0 =
     ([Pt 1000 0, Pt 1000 1000, Pt 1001 1000, Pt 1001 2000, Pt 1000 0], {})"
  by (simp add: smooth_window_def Let_def dotProduct_def Pt_def)

lemma smooth_window_shift:
  "smooth_window 1000 5 10 4
     ([Pt 10 (-1000), Pt 10 10, Pt 1000 10, Pt 1000 1010, Pt 10 (-1000)], {}) 0 =
     ([Pt 10 (-1000), Pt 10 9, Pt 1000 10, Pt 1000 1010, Pt 10 (-1000)], {})"
  using withinDeviation_shift
  by (simp add: smooth_window_def Let_def dotProduct_def hypot_axis Pt_def coord_of_double_def)

text \<open>
  Claim C4 says that a window is acted upon exactly when the squared length of its
  middle segment is below the squared \<open>max_resolution\<close> and the turning-angle deviation
  exceeds \<open>fluid_angle\<close>, and that an endpoint with a long outer segment is moved by
  exactly \<open>smooth_distance\<close>. The code tests the dot product of the position vectors
  of \<open>p1\<close> and \<open>p2\<close> instead of the length of the segment between them, and divides the
  outer segment by its length times \<open>smooth_distance\<close>. With \<open>max_resolution\<close> 10,
  \<open>smooth_distance\<close> 5 and \<open>fluid_angle\<close> 10:
  \<^item> the window (0,-5), (0,0), (1000,0), (1000,5) has a middle segment of length 1000,
    and both its endpoints are marked for removal;
  \<^item> the window (1000,0), (1000,1000), (1001,1000), (1001,2000) has a middle segment
    of length 1 and a deviation of 90 degrees, and nothing is done;
  \<^item> with \<open>max_resolution\<close> 1000, in the window (10,-1000), (10,10), (1000,10),
    (1000,1010) both outer segments are longer than twice \<open>smooth_distance\<close>; \<open>p1\<close>
    moves by 1 and \<open>p2\<close> does not move.
\<close>

theorem C4_smooth_window_tests_dot_product:
  "(10 * 10 \<le> vSize2 (point_sub (Pt 1000 0) (Pt 0 0))
    \<and> smooth_window 10 5 10 4
          ([Pt 0 (-5), Pt 0 0, Pt 1000 0, Pt 1000 5, Pt 0 (-5)], {}) 0 =
        ([Pt 0 (-5), Pt 0 0, Pt 1000 0, Pt 1000 5, Pt 0 (-5)], {1, 2}))
   \<and> (vSize2 (point_sub (Pt 1001 1000) (Pt 1000 1000)) < 10 * 10
      \<and> \<not> withinDeviation (Pt 1000 0) (Pt 1000 1000) (Pt 1001 1000) (Pt 1001 2000) 10
      \<and> smooth_window 10 5 10 4
            ([Pt 1000 0, Pt 1000 1000, Pt 1001 1000, Pt 1001 2000, Pt 1000 0], {}) 0 =
          ([Pt 1000 0, Pt 1000 1000, Pt 1001 1000, Pt 1001 2000, Pt 1000 0], {}))
   \<and> smooth_window 1000 5 10 4
         ([Pt 10 (-1000), Pt 10 10, Pt 1000 10, Pt 1000 1010, Pt 10 (-1000)], {}) 0 =
       ([Pt 10 (-1000), Pt 10 9, Pt 1000 10, Pt 1000 1010, Pt 10 (-1000)], {})"
  using smooth_window_long_segment smooth_window_short_segment smooth_window_shift
        withinDeviation_short_segment
  by (simp add: vSize2_def point_sub_def Pt_def)

end
